theory Spec2Isabelle
  imports Complex_Main "HOL-Library.Sublist"
begin

section \<open>JavaScript strings and values\<close>

text \<open>
  A JavaScript string is modelled as a \<open>string\<close>: a list of code units, restricted to the
  code units below 256. The helpers of this section are the built-in string methods the
  extension calls, written out on that model.
\<close>

abbreviation DQ :: char where "DQ \<equiv> CHR 0x22"
abbreviation SQ :: char where "SQ \<equiv> CHR 0x27"
abbreviation LF :: char where "LF \<equiv> CHR 0x0A"
abbreviation CR :: char where "CR \<equiv> CHR 0x0D"
abbreviation BS :: char where "BS \<equiv> CHR 0x5C"

text \<open>The white space of \<open>String.prototype.trim\<close> and of the regular expression class
  \<open>\s\<close>, among the code units below 256: tab, line feed, vertical tab, form feed,
  carriage return, space and no-break space.\<close>

definition isSpace :: "char \<Rightarrow> bool" where
  "isSpace c = (c = CHR 0x09 \<or> c = LF \<or> c = CHR 0x0B \<or> c = CHR 0x0C \<or> c = CR
                \<or> c = CHR 0x20 \<or> c = CHR 0xA0)"








text \<open>\<open>xs.join(sep)\<close>.\<close>

fun join :: "string \<Rightarrow> string list \<Rightarrow> string" where
  "join sep [] = []"
| "join sep [x] = x"
| "join sep (x # y # ys) = x @ sep @ join sep (y # ys)"

text \<open>The values \<open>JSON.parse\<close> and \<open>yaml.load\<close> return. A number is a double: finite,
  or an infinity for a literal too large.\<close>

datatype number = Finite real | PosInfinity | NegInfinity

datatype json =
    JNull
  | JBool bool
  | JNum number
  | JStr string
  | JArr "json list"
  | JObj "(string \<times> json) list"

text \<open>\<open>obj?.name\<close> for the names \<open>username\<close> and \<open>key\<close>: an object gives its own entry
  of that name, every other value gives \<open>undefined\<close> (\<open>None\<close>).\<close>

fun getProp :: "json \<Rightarrow> string \<Rightarrow> json option" where
  "getProp (JObj kvs) name = map_of kvs name"
| "getProp _ name = None"

text \<open>Truthiness, which \<open>&&\<close> and \<open>if\<close> test.\<close>

fun truthy :: "json option \<Rightarrow> bool" where
  "truthy None = False"
| "truthy (Some JNull) = False"
| "truthy (Some (JBool b)) = b"
| "truthy (Some (JNum (Finite x))) = (x \<noteq> 0)"
| "truthy (Some (JNum _)) = True"
| "truthy (Some (JStr s)) = (s \<noteq> [])"
| "truthy (Some (JArr _)) = True"
| "truthy (Some (JObj _)) = True"

section \<open>The notebook list: CSV rows (tree/myNotebooksProvider.ts)\<close>

record KernelItem =
  ref :: string
  url :: string

text \<open>The loop of \<open>splitCsv\<close> over the rest of the line; \<open>cur\<close> is the field being read,
  \<open>inQ\<close> the quote state, \<open>out\<close> the fields pushed so far. A double quote inside quotes that
  is followed by another one appends one quote and skips both; any other double quote only
  flips the state.\<close>

fun splitCsvLoop :: "string \<Rightarrow> string \<Rightarrow> bool \<Rightarrow> string list \<Rightarrow> string list" where
  "splitCsvLoop [] cur inQ out = out @ [cur]"
| "splitCsvLoop [ch] cur inQ out =
     (if ch = DQ then splitCsvLoop [] cur (\<not> inQ) out
      else if ch = CHR '','' \<and> \<not> inQ then splitCsvLoop [] [] inQ (out @ [cur])
      else splitCsvLoop [] (cur @ [ch]) inQ out)"
| "splitCsvLoop (ch # nx # rest) cur inQ out =
     (if ch = DQ then
        (if inQ \<and> nx = DQ then splitCsvLoop rest (cur @ [DQ]) inQ out
         else splitCsvLoop (nx # rest) cur (\<not> inQ) out)
      else if ch = CHR '','' \<and> \<not> inQ then splitCsvLoop (nx # rest) [] inQ (out @ [cur])
      else splitCsvLoop (nx # rest) (cur @ [ch]) inQ out)"

text \<open>\<open>s.replace(/^\"|\"$/g, '')\<close>: a double quote at the start is removed, and then one at
  the end of what is left.\<close>

definition stripQuotes :: "string \<Rightarrow> string" where
  "stripQuotes s =
     (let s1 = (case s of [] \<Rightarrow> [] | c # r \<Rightarrow> if c = DQ then r else s)
      in if s1 \<noteq> [] \<and> last s1 = DQ then butlast s1 else s1)"

definition splitCsv :: "string \<Rightarrow> string list" where
  "splitCsv line = map stripQuotes (splitCsvLoop line [] False [])"








text \<open>Standard CSV quoting, as the claim about the splitter words it: a field that holds a
  comma or a double quote is wrapped in double quotes with each of its double quotes
  doubled; the fields of a row are joined by commas.\<close>

definition csvEncodeField :: "string \<Rightarrow> string" where
  "csvEncodeField f =
     (if CHR '','' \<in> set f \<or> DQ \<in> set f
      then [DQ] @ concat (map (\<lambda>c. if c = DQ then [DQ, DQ] else [c]) f) @ [DQ]
      else f)"

definition csvEncodeRow :: "string list \<Rightarrow> string" where
  "csvEncodeRow fs = join '','' (map csvEncodeField fs)"



section \<open>Errors and project files\<close>

datatype error =
    NoCredentials | CliUnavailable | CliError | FileMissing | YamlException
  | PathTypeError | MkdirError | ExecRefused

datatype accelerator = AccNone | AccGpu | AccTpu

datatype privacy = Private | Public

text \<open>The interface \<open>KaggleYml\<close> of extension.ts. The code casts whatever \<open>yaml.load\<close>
  returns to this type, and replaces an empty document by \<open>{}\<close>, so every key may be
  absent: each field is an option. The value of \<open>outputs.download_to\<close> is kept as the
  parser gives it, since the code hands it to \<open>path.join\<close> unchecked; an \<open>outputs\<close>
  that is not a mapping reads like an absent one.\<close>

record Outputs =
  download_to :: "json option"

record KaggleYml =
  project :: "string option"
  kernel_slug :: "string option"
  code_file :: "string option"
  accelerator :: "accelerator option"
  internet :: "bool option"
  privacy :: "privacy option"
  datasets :: "string list option"
  competitions :: "string list option"
  outputs :: "Outputs option"

definition emptyYml :: KaggleYml where
  "emptyYml = \<lparr>project = None, kernel_slug = None, code_file = None, accelerator = None,
               internet = None, privacy = None, datasets = None, competitions = None,
               outputs = None\<rparr>"

text \<open>The file kaggle.yml as the code meets it: missing (reading it throws), a text on
  which \<open>yaml.load\<close> throws, a text without a document (\<open>yaml.load\<close> returns
  \<open>undefined\<close>; the empty text is one), or a text that loads to a mapping. The parser and
  the printer of js-yaml are outside the repository: a text is represented by the mapping
  it loads to, and \<open>yaml.dump(yml)\<close> by the mapping it prints. Documents that load to a
  scalar or a sequence, and failures of the file system other than a missing file, are not
  modelled.\<close>

datatype yml_file = Missing | Malformed | EmptyDoc | Mapping KaggleYml

text \<open>\<open>(yaml.load(await fs.promises.readFile(ymlPath, 'utf8')) || {}) as KaggleYml\<close>\<close>

definition loadYml :: "yml_file \<Rightarrow> error + KaggleYml" where
  "loadYml f = (case f of
       Missing \<Rightarrow> Inl FileMissing
     | Malformed \<Rightarrow> Inl YamlException
     | EmptyDoc \<Rightarrow> Inr emptyYml
     | Mapping y \<Rightarrow> Inr y)"

text \<open>The name of the output directory, as both \<open>pollAndDownload\<close> and the run history
  compute it: \<open>path.join(root, yml.outputs?.download_to || '.kaggle-outputs')\<close>. A value
  that is not truthy gives the default; \<open>path.join\<close> throws a \<open>TypeError\<close> on a truthy
  value that is not a string (\<open>None\<close>).\<close>

definition outputDirName :: "KaggleYml \<Rightarrow> string option" where
  "outputDirName yml =
     (case outputs yml of
        None \<Rightarrow> Some ''.kaggle-outputs''
      | Some out \<Rightarrow>
          if \<not> truthy (download_to out) then Some ''.kaggle-outputs''
          else (case download_to out of Some (JStr d) \<Rightarrow> Some d | _ \<Rightarrow> None))"

section \<open>Attaching a dataset (extension.ts)\<close>

text \<open>\<open>Array.from(new Set(xs))\<close>: a \<open>Set\<close> keeps its elements in the order of their
  first insertion, and adding an element it holds changes nothing.\<close>

definition setAdd :: "'a list \<Rightarrow> 'a \<Rightarrow> 'a list" where
  "setAdd seen x = (if x \<in> set seen then seen else seen @ [x])"

definition arrayFromSet :: "'a list \<Rightarrow> 'a list" where
  "arrayFromSet xs = foldl setAdd [] xs"

text \<open>The read-modify-write shared by both commands: load, replace \<open>datasets\<close>, dump.\<close>

definition attachToFile :: "yml_file \<Rightarrow> string \<Rightarrow> error + yml_file" where
  "attachToFile f ds = (case loadYml f of
       Inl e \<Rightarrow> Inl e
     | Inr yml \<Rightarrow>
         Inr (Mapping (yml\<lparr>datasets :=
                Some (arrayFromSet ((case datasets yml of None \<Rightarrow> [] | Some xs \<Rightarrow> xs) @ [ds]))\<rparr>)))"

text \<open>\<open>kaggle.attachDataset\<close>: \<open>ds\<close> is the answer to the input box (the empty answer
  returns at once). The result is the file afterwards, or the error shown.\<close>

definition attachDataset :: "yml_file \<Rightarrow> string \<Rightarrow> error + yml_file" where
  "attachDataset f ds = (if ds = [] then Inr f else attachToFile f ds)"

text \<open>\<open>kaggle.attachDatasetFromTree\<close>: when the file is missing the user is asked whether
  to initialise the project; \<open>afterInit\<close> is \<open>None\<close> for the answer No, and otherwise the
  file as \<open>initProject\<close> leaves it.\<close>

definition attachDatasetFromTree :: "yml_file \<Rightarrow> yml_file option \<Rightarrow> string \<Rightarrow> error + yml_file" where
  "attachDatasetFromTree f afterInit r =
     (if r = [] then Inr f
      else if f = Missing then
        (case afterInit of None \<Rightarrow> Inr f | Some f' \<Rightarrow> attachToFile f' r)
      else attachToFile f r)"

section \<open>Credentials (kaggleCli.ts)\<close>

record Credentials =
  username :: json
  key :: json

text \<open>Steps 1 and 2 of \<open>getKaggleCreds\<close> on one raw text: skipped when the text is absent
  or empty, when \<open>JSON.parse\<close> throws (\<open>parse\<close> returns \<open>None\<close>) and when \<open>username\<close> or
  \<open>key\<close> is not truthy. \<open>JSON.parse\<close> is a parameter.\<close>

definition credsFromJson :: "(string \<Rightarrow> json option) \<Rightarrow> string option \<Rightarrow> Credentials option" where
  "credsFromJson parse raw = (case raw of
       None \<Rightarrow> None
     | Some s \<Rightarrow>
         if s = [] then None
         else (case parse s of
                 None \<Rightarrow> None
               | Some obj \<Rightarrow>
                   (case (getProp obj ''username'', getProp obj ''key'') of
                      (Some u, Some k) \<Rightarrow>
                        if truthy (Some u) \<and> truthy (Some k)
                        then Some \<lparr>username = u, key = k\<rparr> else None
                    | _ \<Rightarrow> None)))"

text \<open>Step 3: the two discrete variables, both set and non-empty.\<close>

definition credsFromEnvPair :: "(string \<rightharpoonup> string) \<Rightarrow> Credentials option" where
  "credsFromEnvPair env = (case (env ''KAGGLE_USERNAME'', env ''KAGGLE_KEY'') of
       (Some u, Some k) \<Rightarrow>
         if u \<noteq> [] \<and> k \<noteq> [] then Some \<lparr>username = JStr u, key = JStr k\<rparr> else None
     | _ \<Rightarrow> None)"

definition getKaggleCreds ::
  "(string \<Rightarrow> json option) \<Rightarrow> string option \<Rightarrow> (string \<rightharpoonup> string) \<Rightarrow> error + Credentials" where
  "getKaggleCreds parse secret env =
     (case credsFromJson parse secret of
        Some c \<Rightarrow> Inr c
      | None \<Rightarrow>
          (case credsFromJson parse (env ''KAGGLE_TOKEN_JSON'') of
             Some c \<Rightarrow> Inr c
           | None \<Rightarrow>
               (case credsFromEnvPair env of
                  Some c \<Rightarrow> Inr c
                | None \<Rightarrow> Inl NoCredentials)))"

text \<open>The resolver as the specification words it: a source is structurally valid when it
  yields both fields as non-empty strings; the secret store comes first, then the JSON
  variable, then the pair of variables; without a valid source the resolver fails.\<close>

definition validPair :: "json \<Rightarrow> (string \<times> string) option" where
  "validPair obj = (case obj of
       JObj kvs \<Rightarrow>
         (case (map_of kvs ''username'', map_of kvs ''key'') of
            (Some (JStr u), Some (JStr k)) \<Rightarrow> if u \<noteq> [] \<and> k \<noteq> [] then Some (u, k) else None
          | _ \<Rightarrow> None)
     | _ \<Rightarrow> None)"

definition validJsonSource :: "(string \<Rightarrow> json option) \<Rightarrow> string option \<Rightarrow> (string \<times> string) option" where
  "validJsonSource parse raw = (case raw of
       None \<Rightarrow> None
     | Some s \<Rightarrow> (case parse s of None \<Rightarrow> None | Some obj \<Rightarrow> validPair obj))"

definition validEnvPair :: "(string \<rightharpoonup> string) \<Rightarrow> (string \<times> string) option" where
  "validEnvPair env = (case (env ''KAGGLE_USERNAME'', env ''KAGGLE_KEY'') of
       (Some u, Some k) \<Rightarrow> if u \<noteq> [] \<and> k \<noteq> [] then Some (u, k) else None
     | _ \<Rightarrow> None)"

definition specResolve ::
  "(string \<Rightarrow> json option) \<Rightarrow> string option \<Rightarrow> (string \<rightharpoonup> string) \<Rightarrow> error + Credentials" where
  "specResolve parse secret env =
     (case validJsonSource parse secret of
        Some (u, k) \<Rightarrow> Inr \<lparr>username = JStr u, key = JStr k\<rparr>
      | None \<Rightarrow>
          (case validJsonSource parse (env ''KAGGLE_TOKEN_JSON'') of
             Some (u, k) \<Rightarrow> Inr \<lparr>username = JStr u, key = JStr k\<rparr>
           | None \<Rightarrow>
               (case validEnvPair env of
                  Some (u, k) \<Rightarrow> Inr \<lparr>username = JStr u, key = JStr k\<rparr>
                | None \<Rightarrow> Inl NoCredentials)))"

text \<open>A field is string-typed when it is absent, falsy or a string: what is left out are
  the truthy values that are not strings (a non-zero number, \<open>true\<close>, an array, an
  object).\<close>

definition stringTypedField :: "json option \<Rightarrow> bool" where
  "stringTypedField v = (case v of Some (JStr s) \<Rightarrow> True | _ \<Rightarrow> \<not> truthy v)"

definition stringTypedSource :: "(string \<Rightarrow> json option) \<Rightarrow> string option \<Rightarrow> bool" where
  "stringTypedSource parse raw = (case raw of
       None \<Rightarrow> True
     | Some s \<Rightarrow>
         (case parse s of
            None \<Rightarrow> True
          | Some obj \<Rightarrow> stringTypedField (getProp obj ''username'') \<and> stringTypedField (getProp obj ''key'')))"

text \<open>A stand-in for \<open>JSON.parse\<close> for the examples below. It knows two texts,
  \<open>{"username":"bob","key":"k9"}\<close> and \<open>{"username":1,"key":2}\<close>, and throws on
  every other one.\<close>

definition parseSample :: "string \<Rightarrow> json option" where
  "parseSample s =
     (if s = ''{\"username\":\"bob\",\"key\":\"k9\"}''
      then Some (JObj [(''username'', JStr ''bob''), (''key'', JStr ''k9'')])
      else if s = ''{\"username\":1,\"key\":2}''
      then Some (JObj [(''username'', JNum (Finite 1)), (''key'', JNum (Finite 2))])
      else None)"

section \<open>Shell arguments and the CLI invocation (kaggleCli.ts)\<close>



text \<open>What \<open>runKaggleCLI\<close> passes to \<open>exec\<close>: the command line and the options
  \<open>cwd\<close> and \<open>env\<close>. The values of \<open>env\<close> are the inherited strings and the two
  credential values as \<open>getKaggleCreds\<close> returned them.\<close>

record ExecCall =
  command :: string
  cwd :: "string option"
  env :: "string \<rightharpoonup> json"


text \<open>Modelled from the spec: the shell-argument tokenizer of each platform family, which
  is not part of the repository. The specification names it only by its quoting
  convention; the rules written out here are those of the programs that split the command
  line \<open>exec\<close> hands over. No command line holds a NUL character.

  For the Unix family, \<open>/bin/sh\<close>: blanks separate words, everything between single
  quotes is literal, and a backslash outside quotes makes the next character literal (a
  backslash before a line feed removes both); any other character with a meaning to the
  shell, and an unclosed quote, is outside the fragment and gives \<open>None\<close>.\<close>

datatype quoting = Between | InWord | InQuotes

definition isBlank :: "char \<Rightarrow> bool" where
  "isBlank c = (c = CHR 0x20 \<or> c = CHR 0x09 \<or> c = LF)"

definition shellSpecial :: "char \<Rightarrow> bool" where
  "shellSpecial c = (c \<in> set ''\"$`;&|<>()*?[]#~=%!{}'')"

fun posixWords :: "quoting \<Rightarrow> string \<Rightarrow> string \<Rightarrow> string list option" where
  "posixWords Between cur [] = Some []"
| "posixWords InWord cur [] = Some [cur]"
| "posixWords InQuotes cur [] = None"
| "posixWords InQuotes cur (c # cs) =
     (if c = SQ then posixWords InWord cur cs else posixWords InQuotes (cur @ [c]) cs)"
| "posixWords st cur [c] =
     (if c = SQ then posixWords InQuotes cur []
      else if c = BS then None
      else if isBlank c then (if st = InWord then Some [cur] else Some [])
      else if shellSpecial c then None
      else posixWords InWord (cur @ [c]) [])"
| "posixWords st cur (c # d # cs) =
     (if c = SQ then posixWords InQuotes cur (d # cs)
      else if c = BS then
        (if d = LF then posixWords st cur cs else posixWords InWord (cur @ [d]) cs)
      else if isBlank c then
        (if st = InWord then map_option (\<lambda>ws. cur # ws) (posixWords Between [] (d # cs))
         else posixWords Between [] (d # cs))
      else if shellSpecial c then None
      else posixWords InWord (cur @ [c]) (d # cs))"







section \<open>Submitting a run and logging it (extension.ts)\<close>

text \<open>The pattern \<open>/https?:\/\/www\.kaggle\.com\/[\w\-\/]+/\<close>. \<open>matchUrlAt\<close> matches it
  at the start of its argument and returns the matched text: the optional \<open>s\<close> is tried
  first, and the class at the end takes as many characters as it can, at least one.\<close>

definition isWordChar :: "char \<Rightarrow> bool" where
  "isWordChar c =
     (let n = (of_char c :: nat)
      in (48 \<le> n \<and> n \<le> 57) \<or> (65 \<le> n \<and> n \<le> 90) \<or> (97 \<le> n \<and> n \<le> 122) \<or> n = 95)"

definition isUrlChar :: "char \<Rightarrow> bool" where
  "isUrlChar c = (isWordChar c \<or> c = CHR ''-'' \<or> c = CHR ''/'')"

fun stripPrefix :: "string \<Rightarrow> string \<Rightarrow> string option" where
  "stripPrefix [] s = Some s"
| "stripPrefix (p # ps) [] = None"
| "stripPrefix (p # ps) (c # cs) = (if p = c then stripPrefix ps cs else None)"

definition matchHost :: "string \<Rightarrow> string \<Rightarrow> string option" where
  "matchHost scheme s =
     (case stripPrefix ''://www.kaggle.com/'' s of
        None \<Rightarrow> None
      | Some t \<Rightarrow>
          (let body = takeWhile isUrlChar t
           in if body = [] then None else Some (scheme @ ''://www.kaggle.com/'' @ body)))"

definition matchUrlAt :: "string \<Rightarrow> string option" where
  "matchUrlAt s =
     (case stripPrefix ''http'' s of
        None \<Rightarrow> None
      | Some r \<Rightarrow>
          (case (case stripPrefix ''s'' r of None \<Rightarrow> None | Some r' \<Rightarrow> matchHost ''https'' r') of
             Some m \<Rightarrow> Some m
           | None \<Rightarrow> matchHost ''http'' r))"

text \<open>\<open>text.match(pattern)\<close> without the global flag: the match at the leftmost position
  that has one.\<close>

fun firstUrl :: "string \<Rightarrow> string option" where
  "firstUrl [] = matchUrlAt []"
| "firstUrl (c # cs) =
     (case matchUrlAt (c # cs) of Some m \<Rightarrow> Some m | None \<Rightarrow> firstUrl cs)"

record ExecResult =
  stdout :: string
  stderr :: string

text \<open>\<open>logRun\<close> appends one line to the run log; \<open>ts\<close> is \<open>new Date().toISOString()\<close>,
  and a log file that does not exist yet is the empty text.\<close>

definition logRun :: "string \<Rightarrow> string \<Rightarrow> string \<Rightarrow> string" where
  "logRun ts runLog u = runLog @ ts @ '' | '' @ u @ [LF]"

text \<open>The part of \<open>kaggle.runCurrentNotebook\<close> from the push to the run log: \<open>res\<close> is
  what \<open>runKaggleCLI\<close> gave for the push. The result is the error shown or the URL found,
  and the run log afterwards.\<close>

definition pushAndLog ::
  "string \<Rightarrow> string \<Rightarrow> error + ExecResult \<Rightarrow> (error + string option) \<times> string" where
  "pushAndLog ts runLog res = (case res of
       Inl e \<Rightarrow> (Inl e, runLog)
     | Inr r \<Rightarrow>
         (case firstUrl (stdout r) of
            None \<Rightarrow> (Inr None, runLog)
          | Some u \<Rightarrow>
              if u \<noteq> [] then (Inr (Some u), logRun ts runLog u) else (Inr None, runLog)))"

text \<open>The pattern as a property of a text, for the statement about the first match: a
  scheme \<open>http\<close> or \<open>https\<close>, the host part, and a non-empty run of the characters of the
  class.\<close>

definition isKaggleUrl :: "string \<Rightarrow> bool" where
  "isKaggleUrl u =
     (\<exists>body. body \<noteq> [] \<and> list_all isUrlChar body \<and>
        (u = ''http://www.kaggle.com/'' @ body \<or> u = ''https://www.kaggle.com/'' @ body))"

text \<open>A text has a match when some part of it satisfies the pattern; the first match is
  the one that starts leftmost and, among those that start there, is the longest.\<close>

definition hasUrl :: "string \<Rightarrow> bool" where
  "hasUrl s = (\<exists>pre u post. s = pre @ u @ post \<and> isKaggleUrl u)"

definition isFirstUrlOf :: "string \<Rightarrow> string \<Rightarrow> bool" where
  "isFirstUrlOf s u =
     (\<exists>pre post. s = pre @ u @ post \<and> isKaggleUrl u \<and>
        (\<forall>pre' u' post'. s = pre' @ u' @ post' \<and> isKaggleUrl u' \<longrightarrow>
           length pre < length pre' \<or> (length pre = length pre' \<and> length u' \<le> length u)))"

section \<open>Polling for outputs (extension.ts)\<close>

text \<open>One pass through the \<open>try\<close> block of the loop: the fetch fails, the fetch succeeds
  and reading the directory fails, or the directory is read.\<close>

datatype attempt = FetchError | ReaddirError | Items "string list"

fun observedNonEmpty :: "attempt \<Rightarrow> bool" where
  "observedNonEmpty (Items items) = (length items > 0)"
| "observedNonEmpty _ = False"

datatype poll_result = Complete nat | TimedOut nat

text \<open>The sleep between two attempts, in milliseconds:
  \<open>setTimeout(r, Math.max(1000, intervalSeconds * 1000))\<close>. \<open>setTimeout\<close> replaces a delay
  above \<open>2147483647\<close> by \<open>1\<close>.\<close>

definition sleepMs :: "int \<Rightarrow> int" where
  "sleepMs intervalSeconds =
     (let delay = max 1000 (intervalSeconds * 1000)
      in if delay > 2147483647 then 1 else delay)"

text \<open>The loop of \<open>pollAndDownload\<close>. \<open>fetch i\<close> is what attempt \<open>i\<close> (counted from 0)
  meets, \<open>dur i\<close> the milliseconds that attempt takes beyond the sleep that follows it,
  and \<open>elapsed\<close> is \<open>Date.now() - start\<close> at the test of the loop. The result carries the
  number of attempts made.\<close>

function pollLoop ::
  "(nat \<Rightarrow> attempt) \<Rightarrow> (nat \<Rightarrow> nat) \<Rightarrow> int \<Rightarrow> int \<Rightarrow> nat \<Rightarrow> int \<Rightarrow> poll_result" where
  "pollLoop fetch dur intervalSeconds timeoutSeconds i elapsed =
     (if elapsed < timeoutSeconds * 1000 then
        (if observedNonEmpty (fetch i) then Complete (Suc i)
         else pollLoop fetch dur intervalSeconds timeoutSeconds (Suc i)
                (elapsed + int (dur i) + sleepMs intervalSeconds))
      else TimedOut i)"
  by pat_completeness auto
termination
  by (relation "measure (\<lambda>(fetch, dur, iv, tmo, i, elapsed). nat (tmo * 1000 - elapsed))")
     (auto simp: sleepMs_def Let_def)

declare pollLoop.simps [simp del]

text \<open>\<open>pollAndDownload\<close>. Before the loop, and outside any \<open>try\<close>, kaggle.yml is read
  and loaded, the name of the output directory is joined to the root, and
  \<open>ensureFolder\<close> creates the directory; \<open>canMkdir\<close> says for which names
  \<open>mkdir(..., { recursive: true })\<close> succeeds. Each of the three steps can throw to the
  caller.\<close>

definition pollAndDownload ::
  "yml_file \<Rightarrow> (string \<Rightarrow> bool) \<Rightarrow> (nat \<Rightarrow> attempt) \<Rightarrow> (nat \<Rightarrow> nat) \<Rightarrow> int \<Rightarrow> int
     \<Rightarrow> error + poll_result" where
  "pollAndDownload f canMkdir fetch dur intervalSeconds timeoutSeconds =
     (case loadYml f of
        Inl e \<Rightarrow> Inl e
      | Inr yml \<Rightarrow>
          (case outputDirName yml of
             None \<Rightarrow> Inl PathTypeError
           | Some dest \<Rightarrow>
               if \<not> canMkdir dest then Inl MkdirError
               else Inr (pollLoop fetch dur intervalSeconds timeoutSeconds 0 0)))"

text \<open>An attempt that failed, read as one that found the directory empty.\<close>

fun asNotReady :: "attempt \<Rightarrow> attempt" where
  "asNotReady (Items items) = Items items"
| "asNotReady _ = Items []"

text \<open>The elapsed time at the test of the loop before attempt \<open>k\<close>.\<close>

fun startOf :: "(nat \<Rightarrow> nat) \<Rightarrow> int \<Rightarrow> nat \<Rightarrow> int" where
  "startOf dur intervalSeconds 0 = 0"
| "startOf dur intervalSeconds (Suc k) =
     startOf dur intervalSeconds k + int (dur k) + sleepMs intervalSeconds"

text \<open>The stubs of the specification's test of the loop: a fetch that leaves the
  directory empty for the first \<open>N\<close> attempts and fills it afterwards, a fetch that always
  leaves it empty, and attempts that take no time. Beside them, attempts that take two
  seconds each, and a file system in which every folder can be created.\<close>

definition emptyThenFull :: "nat \<Rightarrow> nat \<Rightarrow> attempt" where
  "emptyThenFull N i = (if i < N then Items [] else Items [''output.csv''])"

definition alwaysEmpty :: "nat \<Rightarrow> attempt" where
  "alwaysEmpty i = Items []"

definition instant :: "nat \<Rightarrow> nat" where
  "instant i = 0"

definition twoSeconds :: "nat \<Rightarrow> nat" where
  "twoSeconds i = 2000"

definition everyFolder :: "string \<Rightarrow> bool" where
  "everyFolder d = True"

section \<open>The run history (tree/runsProvider.ts)\<close>

datatype run_status = StatusComplete | StatusPending

record RunItem =
  label :: string
  url :: "string option"
  status :: "run_status option"
  isLatest :: bool




text \<open>\<open>l.split(/\s+\|\s+/)\<close>: a separator is a run of white space, a bar and a run of
  white space. \<open>sepAt\<close> matches one at the start of its argument and returns what follows
  it.\<close>

definition sepAt :: "string \<Rightarrow> string option" where
  "sepAt s =
     (if takeWhile isSpace s = [] then None
      else (case dropWhile isSpace s of
              [] \<Rightarrow> None
            | c # r \<Rightarrow>
                if c = CHR ''|'' \<and> takeWhile isSpace r \<noteq> [] then Some (dropWhile isSpace r)
                else None))"

function splitBar :: "string \<Rightarrow> string \<Rightarrow> string list" where
  "splitBar cur [] = [cur]"
| "splitBar cur (c # cs) =
     (case sepAt (c # cs) of
        Some r \<Rightarrow> cur # splitBar [] r
      | None \<Rightarrow> splitBar (cur @ [c]) cs)"
  by pat_completeness auto

termination
proof (relation "measure (\<lambda>(cur, s). length s)")
  show "wf (measure (\<lambda>(cur, s). length s))" by simp
next
  fix cur :: string and c cs r
  assume "sepAt (c # cs) = Some r"
  then obtain t where "dropWhile isSpace (c # cs) = CHR ''|'' # t" and "r = dropWhile isSpace t"
    by (auto simp: sepAt_def split: if_splits list.splits)
  then have "length r \<le> length t" and "Suc (length t) \<le> length (c # cs)"
    using length_dropWhile_le[of isSpace t] length_dropWhile_le[of isSpace "c # cs"] by auto
  then show "((([], r)), (cur, c # cs)) \<in> measure (\<lambda>(cur, s). length s)" by simp
next
  fix cur :: string and c cs
  show "((cur @ [c], cs), (cur, c # cs)) \<in> measure (\<lambda>(cur, s). length s)" by simp
qed

text \<open>One line of the run log: \<open>const [ts, url] = l.split(/\s+\|\s+/)\<close>.\<close>

definition parseLogLine :: "string \<Rightarrow> RunItem" where
  "parseLogLine l =
     (case splitBar [] l of
        [] \<Rightarrow> \<lparr>label = [], url = None, status = None, isLatest = False\<rparr>
      | [ts] \<Rightarrow> \<lparr>label = ts, url = None, status = None, isLatest = False\<rparr>
      | ts # u # _ \<Rightarrow> \<lparr>label = ts, url = Some u, status = None, isLatest = False\<rparr>)"








section \<open>Verification: the notebook list\<close>








lemma loop_plain_char:
  "ch \<noteq> DQ \<Longrightarrow> ch \<noteq> CHR '','' \<Longrightarrow>
   splitCsvLoop (ch # s) cur inQ out = splitCsvLoop s (cur @ [ch]) inQ out"
  by (cases s) simp_all

lemma loop_open_quote:
  "splitCsvLoop (DQ # s) cur False out = splitCsvLoop s cur True out"
  by (cases s) simp_all

lemma loop_quoted_char:
  "ch \<noteq> DQ \<Longrightarrow> splitCsvLoop (ch # s) cur True out = splitCsvLoop s (cur @ [ch]) True out"
  by (cases s) simp_all

lemma loop_doubled_quote:
  "splitCsvLoop (DQ # DQ # s) cur True out = splitCsvLoop s (cur @ [DQ]) True out"
  by simp

lemma loop_close_quote:
  "s = [] \<or> hd s \<noteq> DQ \<Longrightarrow> splitCsvLoop (DQ # s) cur True out = splitCsvLoop s cur False out"
  by (cases s) auto

lemma loop_comma:
  "splitCsvLoop (CHR '','' # s) cur False out = splitCsvLoop s [] False (out @ [cur])"
  by (cases s) simp_all

lemma loop_plain_field:
  "CHR '','' \<notin> set f \<Longrightarrow> DQ \<notin> set f \<Longrightarrow>
   splitCsvLoop (f @ s) cur False out = splitCsvLoop s (cur @ f) False out"
proof (induction f arbitrary: cur)
  case Nil
  show ?case by simp
next
  case (Cons a f)
  then have "a \<noteq> DQ" "a \<noteq> CHR '',''" by auto
  then have "splitCsvLoop ((a # f) @ s) cur False out = splitCsvLoop (f @ s) (cur @ [a]) False out"
    by (simp add: loop_plain_char del: splitCsvLoop.simps)
  then show ?case using Cons by simp
qed

lemma loop_quoted_body:
  "splitCsvLoop (concat (map (\<lambda>c. if c = DQ then [DQ, DQ] else [c]) f) @ s) cur True out
   = splitCsvLoop s (cur @ f) True out"
proof (induction f arbitrary: cur)
  case Nil
  show ?case by simp
next
  case (Cons a f)
  show ?case
  proof (cases "a = DQ")
    case True
    then show ?thesis using Cons.IH[of "cur @ [DQ]"] by simp
  next
    case False
    then show ?thesis using Cons.IH[of "cur @ [a]"]
      by (simp add: loop_quoted_char del: splitCsvLoop.simps)
  qed
qed

lemma loop_encoded_field:
  assumes "s = [] \<or> hd s \<noteq> DQ"
  shows "splitCsvLoop (csvEncodeField f @ s) cur False out = splitCsvLoop s (cur @ f) False out"
proof (cases "CHR '','' \<in> set f \<or> DQ \<in> set f")
  case False
  then show ?thesis by (simp add: csvEncodeField_def loop_plain_field)
next
  case True
  let ?body = "concat (map (\<lambda>c. if c = DQ then [DQ, DQ] else [c]) f)"
  have "splitCsvLoop (csvEncodeField f @ s) cur False out
        = splitCsvLoop (DQ # (?body @ DQ # s)) cur False out"
    using True by (simp add: csvEncodeField_def)
  also have "\<dots> = splitCsvLoop (?body @ DQ # s) cur True out"
    by (rule loop_open_quote)
  also have "\<dots> = splitCsvLoop (DQ # s) (cur @ f) True out"
    by (rule loop_quoted_body)
  also have "\<dots> = splitCsvLoop s (cur @ f) False out"
    using assms by (rule loop_close_quote)
  finally show ?thesis .
qed

text \<open>The loop of \<open>splitCsv\<close> by itself decodes every row of standard CSV quoting.\<close>

lemma splitCsvLoop_decodes:
  "fs \<noteq> [] \<Longrightarrow> splitCsvLoop (csvEncodeRow fs) [] False out = out @ fs"
  unfolding csvEncodeRow_def
proof (induction fs arbitrary: out rule: induct_list012)
  case 1
  then show ?case by simp
next
  case (2 f)
  show ?case using loop_encoded_field[of "[]" f "[]" out] by simp
next
  case (3 f g fs)
  have "splitCsvLoop (join '','' (map csvEncodeField (f # g # fs))) [] False out
        = splitCsvLoop (csvEncodeField f @ CHR '','' # join '','' (map csvEncodeField (g # fs)))
            [] False out"
    by simp
  also have "\<dots> = splitCsvLoop (CHR '','' # join '','' (map csvEncodeField (g # fs))) f False out"
    using loop_encoded_field[of "CHR '','' # join '','' (map csvEncodeField (g # fs))" f "[]" out]
    by simp
  also have "\<dots> = splitCsvLoop (join '','' (map csvEncodeField (g # fs))) [] False (out @ [f])"
    by (rule loop_comma)
  also have "\<dots> = (out @ [f]) @ g # fs"
    by (rule "3.IH"(2)) simp
  finally show ?case by simp
qed

lemma stripQuotes_id:
  "f = [] \<or> (hd f \<noteq> DQ \<and> last f \<noteq> DQ) \<Longrightarrow> stripQuotes f = f"
  by (cases f) (auto simp: stripQuotes_def)

text \<open>So \<open>splitCsv\<close> gives the fields back as long as none of them starts or ends with a
  double quote of its own; the final replacement is what loses those.\<close>

lemma splitCsv_roundtrip_without_edge_quotes:
  assumes "fs \<noteq> []" and "\<forall>f \<in> set fs. f = [] \<or> (hd f \<noteq> DQ \<and> last f \<noteq> DQ)"
  shows "splitCsv (csvEncodeRow fs) = fs"
proof -
  have "splitCsv (csvEncodeRow fs) = map stripQuotes fs"
    using splitCsvLoop_decodes[OF assms(1), of "[]"] by (simp add: splitCsv_def)
  also have "\<dots> = fs" using assms(2) by (simp add: stripQuotes_id map_idI)
  finally show ?thesis .
qed

text \<open>
  Claim C7. Standard CSV quoting followed by \<open>splitCsv\<close> does not give back every field:
  the field \<open>say "hi"\<close> is encoded as \<open>"say ""hi"""\<close>, the loop decodes it to
  \<open>say "hi"\<close>, and the final replacement then removes the closing quote of the value, so the
  splitter returns \<open>say "hi\<close>.
\<close>

theorem splitCsv_strips_edge_quote:
  "csvEncodeRow [''say \"hi\"''] = ''\"say \"\"hi\"\"\"'' \<and>
   splitCsv ''\"say \"\"hi\"\"\"'' = [''say \"hi''] \<and>
   splitCsv (csvEncodeRow [''say \"hi\"'']) \<noteq> [''say \"hi\"'']"
  by code_simp

section \<open>Verification: credentials\<close>

lemma truthy_string_typed:
  "stringTypedField (Some v) \<Longrightarrow> truthy (Some v) \<Longrightarrow> \<exists>s. v = JStr s \<and> s \<noteq> []"
  by (cases v) (auto simp: stringTypedField_def)

lemma validPair_getProp:
  "validPair obj = (case (getProp obj ''username'', getProp obj ''key'') of
       (Some (JStr u), Some (JStr k)) \<Rightarrow> if u \<noteq> [] \<and> k \<noteq> [] then Some (u, k) else None
     | _ \<Rightarrow> None)"
  by (cases obj) (simp_all add: validPair_def)

lemma credsFromJson_valid:
  assumes "parse [] = None" "stringTypedSource parse raw"
  shows "credsFromJson parse raw =
           map_option (\<lambda>(u, k). \<lparr>username = JStr u, key = JStr k\<rparr>) (validJsonSource parse raw)"
proof (cases raw)
  case None
  then show ?thesis by (simp add: credsFromJson_def validJsonSource_def)
next
  case (Some s)
  show ?thesis
  proof (cases "parse s")
    case None
    then show ?thesis using Some by (simp add: credsFromJson_def validJsonSource_def)
  next
    case (Some obj)
    with assms(1) have ne: "s \<noteq> []" by auto
    from assms(2) \<open>raw = Some s\<close> Some
    have st: "stringTypedField (getProp obj ''username'')" "stringTypedField (getProp obj ''key'')"
      by (simp_all add: stringTypedSource_def)
    show ?thesis
    proof (cases "getProp obj ''username''")
      case None
      then show ?thesis using \<open>raw = Some s\<close> Some ne
        by (simp add: credsFromJson_def validJsonSource_def validPair_getProp)
    next
      case u: (Some u)
      show ?thesis
      proof (cases "getProp obj ''key''")
        case None
        then show ?thesis using \<open>raw = Some s\<close> Some ne u
          by (simp add: credsFromJson_def validJsonSource_def validPair_getProp split: json.splits)
      next
        case k: (Some k)
        from st u k have "stringTypedField (Some u)" "stringTypedField (Some k)" by simp_all
        then show ?thesis using \<open>raw = Some s\<close> Some ne u k
          by (cases u; cases k)
             (auto simp: credsFromJson_def validJsonSource_def validPair_getProp stringTypedField_def)
      qed
    qed
  qed
qed

lemma credsFromEnvPair_valid:
  "credsFromEnvPair procEnv = map_option (\<lambda>(u, k). \<lparr>username = JStr u, key = JStr k\<rparr>) (validEnvPair procEnv)"
  by (simp add: credsFromEnvPair_def validEnvPair_def split: option.splits)

text \<open>
  Claim C2, amended. When \<open>JSON.parse\<close> throws on the empty text and no \<open>username\<close> or
  \<open>key\<close> field of the two JSON sources holds a truthy value that is not a string,
  \<open>getKaggleCreds\<close> is the resolver of the specification: it returns the pair of the first
  structurally valid source in the order secret store, JSON variable, pair of variables, a
  source with malformed JSON or a missing or empty field being skipped, and it fails with
  \<open>NoCredentials\<close> exactly when none of the three sources is valid.
\<close>

theorem getKaggleCreds_string_typed:
  assumes "parse [] = None"
    and "stringTypedSource parse secret"
    and "stringTypedSource parse (procEnv ''KAGGLE_TOKEN_JSON'')"
  shows "getKaggleCreds parse secret procEnv = specResolve parse secret procEnv \<and>
         (getKaggleCreds parse secret procEnv = Inl NoCredentials \<longleftrightarrow>
            validJsonSource parse secret = None \<and>
            validJsonSource parse (procEnv ''KAGGLE_TOKEN_JSON'') = None \<and>
            validEnvPair procEnv = None)"
proof -
  have eq: "getKaggleCreds parse secret procEnv = specResolve parse secret procEnv"
    unfolding getKaggleCreds_def specResolve_def
              credsFromJson_valid[OF assms(1,2)] credsFromJson_valid[OF assms(1,3)]
              credsFromEnvPair_valid
    by (simp split: option.splits)
  have "specResolve parse secret procEnv = Inl NoCredentials \<longleftrightarrow>
            validJsonSource parse secret = None \<and>
            validJsonSource parse (procEnv ''KAGGLE_TOKEN_JSON'') = None \<and>
            validEnvPair procEnv = None"
    by (simp add: specResolve_def split: option.splits)
  with eq show ?thesis by simp
qed

text \<open>
  Claim C2 as stated fails. With \<open>{"username":1,"key":2}\<close> in the secret store and a
  valid pair in \<open>KAGGLE_USERNAME\<close> and \<open>KAGGLE_KEY\<close>, the only structurally valid source
  is the pair of variables, but the code tests truthiness only and returns the two numbers
  of the secret store.
\<close>

theorem getKaggleCreds_numeric_fields:
  "getKaggleCreds parseSample (Some ''{\"username\":1,\"key\":2}'')
     [''KAGGLE_USERNAME'' \<mapsto> ''alice'', ''KAGGLE_KEY'' \<mapsto> ''k1'']
     = Inr \<lparr>username = JNum (Finite 1), key = JNum (Finite 2)\<rparr> \<and>
   specResolve parseSample (Some ''{\"username\":1,\"key\":2}'')
     [''KAGGLE_USERNAME'' \<mapsto> ''alice'', ''KAGGLE_KEY'' \<mapsto> ''k1'']
     = Inr \<lparr>username = JStr ''alice'', key = JStr ''k1''\<rparr>"
  by (simp add: getKaggleCreds_def specResolve_def credsFromJson_def parseSample_def
        validJsonSource_def validPair_def validEnvPair_def)

text \<open>The amended claim C2 at a stored token with two string fields, and at a secret
  store holding malformed JSON with no variable set.\<close>

theorem getKaggleCreds_string_typed_witness:
  "parseSample [] = None \<and>
   stringTypedSource parseSample (Some ''{\"username\":\"bob\",\"key\":\"k9\"}'') \<and>
   stringTypedSource parseSample ([''KAGGLE_USERNAME'' \<mapsto> ''alice'', ''KAGGLE_KEY'' \<mapsto> ''k1''] ''KAGGLE_TOKEN_JSON'') \<and>
   getKaggleCreds parseSample (Some ''{\"username\":\"bob\",\"key\":\"k9\"}'')
     [''KAGGLE_USERNAME'' \<mapsto> ''alice'', ''KAGGLE_KEY'' \<mapsto> ''k1'']
     = Inr \<lparr>username = JStr ''bob'', key = JStr ''k9''\<rparr> \<and>
   getKaggleCreds parseSample (Some ''not json'') Map.empty = Inl NoCredentials"
proof -
  have a: "parseSample [] = None" by (simp add: parseSample_def)
  have b: "stringTypedSource parseSample (Some ''{\"username\":\"bob\",\"key\":\"k9\"}'')"
    by (simp add: stringTypedSource_def parseSample_def stringTypedField_def)
  have c: "stringTypedSource parseSample ([''KAGGLE_USERNAME'' \<mapsto> ''alice'', ''KAGGLE_KEY'' \<mapsto> ''k1''] ''KAGGLE_TOKEN_JSON'')"
    by (simp add: stringTypedSource_def)
  have d: "specResolve parseSample (Some ''{\"username\":\"bob\",\"key\":\"k9\"}'')
     [''KAGGLE_USERNAME'' \<mapsto> ''alice'', ''KAGGLE_KEY'' \<mapsto> ''k1'']
     = Inr \<lparr>username = JStr ''bob'', key = JStr ''k9''\<rparr>"
    by (simp add: specResolve_def validJsonSource_def parseSample_def validPair_def)
  have e: "stringTypedSource parseSample (Some ''not json'')"
          "stringTypedSource parseSample (Map.empty ''KAGGLE_TOKEN_JSON'')"
    by (simp_all add: stringTypedSource_def parseSample_def)
  have f: "validJsonSource parseSample (Some ''not json'') = None"
          "validJsonSource parseSample (Map.empty ''KAGGLE_TOKEN_JSON'') = None"
          "validEnvPair Map.empty = None"
    by (simp_all add: validJsonSource_def parseSample_def validEnvPair_def)
  from getKaggleCreds_string_typed
         [of parseSample "Some ''{\"username\":\"bob\",\"key\":\"k9\"}''"
             "[''KAGGLE_USERNAME'' \<mapsto> ''alice'', ''KAGGLE_KEY'' \<mapsto> ''k1'']"] a b c d
  have g: "getKaggleCreds parseSample (Some ''{\"username\":\"bob\",\"key\":\"k9\"}'')
     [''KAGGLE_USERNAME'' \<mapsto> ''alice'', ''KAGGLE_KEY'' \<mapsto> ''k1'']
     = Inr \<lparr>username = JStr ''bob'', key = JStr ''k9''\<rparr>" by simp
  from getKaggleCreds_string_typed[of parseSample "Some ''not json''" Map.empty] a e f
  have h: "getKaggleCreds parseSample (Some ''not json'') Map.empty = Inl NoCredentials" by blast
  from a b c g h show ?thesis by blast
qed

section \<open>Verification: attaching a dataset\<close>

lemma set_foldl_setAdd: "set (foldl setAdd acc xs) = set acc \<union> set xs"
  by (induction xs arbitrary: acc) (auto simp: setAdd_def)

lemma distinct_foldl_setAdd: "distinct acc \<Longrightarrow> distinct (foldl setAdd acc xs)"
  by (induction xs arbitrary: acc) (auto simp: setAdd_def)

lemma foldl_setAdd_distinct: "distinct (acc @ ys) \<Longrightarrow> foldl setAdd acc ys = acc @ ys"
proof (induction ys arbitrary: acc)
  case Nil
  show ?case by simp
next
  case (Cons y ys)
  from Cons.prems have "y \<notin> set acc" and "distinct ((acc @ [y]) @ ys)" by auto
  then show ?case using Cons.IH[of "acc @ [y]"] by (simp add: setAdd_def)
qed

lemma foldl_setAdd_snoc_member:
  "x \<in> set (foldl setAdd acc ys) \<Longrightarrow> foldl setAdd acc (ys @ [x]) = foldl setAdd acc ys"
  by (simp add: setAdd_def)

lemma set_arrayFromSet: "set (arrayFromSet xs) = set xs"
  by (simp add: arrayFromSet_def set_foldl_setAdd)

lemma distinct_arrayFromSet: "distinct (arrayFromSet xs)"
  by (simp add: arrayFromSet_def distinct_foldl_setAdd)

lemma arrayFromSet_again:
  "x \<in> set xs \<Longrightarrow> arrayFromSet (arrayFromSet xs @ [x]) = arrayFromSet xs"
proof -
  assume x: "x \<in> set xs"
  have "arrayFromSet (arrayFromSet xs) = arrayFromSet xs"
    using foldl_setAdd_distinct[of "[]" "arrayFromSet xs"] distinct_arrayFromSet[of xs]
    by (simp add: arrayFromSet_def)
  moreover have "x \<in> set (arrayFromSet (arrayFromSet xs))"
    using x by (simp add: set_arrayFromSet)
  ultimately show ?thesis
    using foldl_setAdd_snoc_member[of x "[]" "arrayFromSet xs"]
    by (simp add: arrayFromSet_def)
qed

lemma count_list_distinct: "distinct xs \<Longrightarrow> x \<in> set xs \<Longrightarrow> count_list xs x = 1"
  by (induction xs) auto

lemma attachToFile_loaded:
  "loadYml f = Inr yml \<Longrightarrow>
   attachToFile f ds =
     Inr (Mapping (yml\<lparr>datasets :=
            Some (arrayFromSet ((case datasets yml of None \<Rightarrow> [] | Some xs \<Rightarrow> xs) @ [ds]))\<rparr>))"
  by (simp add: attachToFile_def)

lemma loadYml_not_missing: "loadYml f = Inr yml \<Longrightarrow> f \<noteq> Missing"
  by (auto simp: loadYml_def)

text \<open>
  Claim C5. Attaching a non-empty slug to a configuration that loads leaves a file whose
  \<open>datasets\<close> list holds that slug exactly once (and holds nothing twice), whatever the
  list was before; attaching the same slug a second time leaves the file as it is. The
  command of the tree view does the same as the command of the palette on a file that
  exists.
\<close>

theorem attachDataset_single_entry:
  assumes "ds \<noteq> []" and "loadYml f = Inr yml"
  shows "\<exists>xs. attachDataset f ds = Inr (Mapping (yml\<lparr>datasets := Some xs\<rparr>)) \<and>
              count_list xs ds = 1 \<and> distinct xs \<and>
              attachDataset (Mapping (yml\<lparr>datasets := Some xs\<rparr>)) ds
                = Inr (Mapping (yml\<lparr>datasets := Some xs\<rparr>)) \<and>
              attachDatasetFromTree f afterInit ds = attachDataset f ds"
proof -
  define old where "old = (case datasets yml of None \<Rightarrow> [] | Some xs \<Rightarrow> xs)"
  define xs where "xs = arrayFromSet (old @ [ds])"
  have a: "attachDataset f ds = Inr (Mapping (yml\<lparr>datasets := Some xs\<rparr>))"
    using assms by (simp add: attachDataset_def attachToFile_loaded xs_def old_def)
  have d: "distinct xs" by (simp add: xs_def distinct_arrayFromSet)
  have m: "ds \<in> set xs" by (simp add: xs_def set_arrayFromSet)
  have c: "count_list xs ds = 1" using d m by (rule count_list_distinct)
  have again: "arrayFromSet (xs @ [ds]) = xs"
    unfolding xs_def by (rule arrayFromSet_again) simp
  have b: "attachDataset (Mapping (yml\<lparr>datasets := Some xs\<rparr>)) ds
                = Inr (Mapping (yml\<lparr>datasets := Some xs\<rparr>))"
    using assms(1) again by (simp add: attachDataset_def attachToFile_def loadYml_def)
  have t: "attachDatasetFromTree f afterInit ds = attachDataset f ds"
    using assms loadYml_not_missing[OF assms(2)]
    by (simp add: attachDatasetFromTree_def attachDataset_def)
  from a b c d t show ?thesis by blast
qed

text \<open>Claim C5 at a configuration that lists the slug twice already.\<close>

theorem attachDataset_single_entry_witness:
  "''alice/iris'' \<noteq> [] \<and>
   loadYml (Mapping (emptyYml\<lparr>datasets := Some [''alice/iris'', ''bob/x'', ''alice/iris'']\<rparr>))
     = Inr (emptyYml\<lparr>datasets := Some [''alice/iris'', ''bob/x'', ''alice/iris'']\<rparr>) \<and>
   attachDataset (Mapping (emptyYml\<lparr>datasets := Some [''alice/iris'', ''bob/x'', ''alice/iris'']\<rparr>))
       ''alice/iris''
     = Inr (Mapping (emptyYml\<lparr>datasets := Some [''alice/iris'', ''bob/x'']\<rparr>)) \<and>
   count_list [''alice/iris'', ''bob/x''] ''alice/iris'' = 1"
proof -
  let ?y = "emptyYml\<lparr>datasets := Some [''alice/iris'', ''bob/x'', ''alice/iris'']\<rparr>"
  have h1: "''alice/iris'' \<noteq> []" by simp
  have h2: "loadYml (Mapping ?y) = Inr ?y" by (simp add: loadYml_def)
  have e: "attachDataset (Mapping ?y) ''alice/iris''
             = Inr (Mapping (emptyYml\<lparr>datasets := Some [''alice/iris'', ''bob/x'']\<rparr>))"
    by (simp add: attachDataset_def attachToFile_def loadYml_def arrayFromSet_def setAdd_def)
  from attachDataset_single_entry[OF h1 h2, of None] e
  have "count_list [''alice/iris'', ''bob/x''] ''alice/iris'' = 1" by auto
  with h1 h2 e show ?thesis by simp
qed

text \<open>
  Claim C6. The read-modify-write of the attach commands on a configuration that loads
  writes a file that loads again, in which every field other than \<open>datasets\<close> is the one
  read, and \<open>datasets\<close> holds the slugs it held before and the attached one.
\<close>

theorem attachDataset_preserves_fields:
  assumes "ds \<noteq> []" and "loadYml f = Inr yml"
  shows "\<exists>f' yml'. attachDataset f ds = Inr f' \<and> loadYml f' = Inr yml' \<and>
           project yml' = project yml \<and> kernel_slug yml' = kernel_slug yml \<and>
           code_file yml' = code_file yml \<and> accelerator yml' = accelerator yml \<and>
           internet yml' = internet yml \<and> privacy yml' = privacy yml \<and>
           competitions yml' = competitions yml \<and> outputs yml' = outputs yml \<and>
           yml'\<lparr>datasets := datasets yml\<rparr> = yml \<and>
           (\<exists>xs. datasets yml' = Some xs \<and>
                 set xs = insert ds (case datasets yml of None \<Rightarrow> {} | Some old \<Rightarrow> set old))"
proof -
  define xs where
    "xs = arrayFromSet ((case datasets yml of None \<Rightarrow> [] | Some old \<Rightarrow> old) @ [ds])"
  define yml' where "yml' = yml\<lparr>datasets := Some xs\<rparr>"
  have a: "attachDataset f ds = Inr (Mapping yml')"
    using assms by (simp add: attachDataset_def attachToFile_loaded xs_def yml'_def)
  have l: "loadYml (Mapping yml') = Inr yml'" by (simp add: loadYml_def)
  have s: "set xs = insert ds (case datasets yml of None \<Rightarrow> {} | Some old \<Rightarrow> set old)"
    by (simp add: xs_def set_arrayFromSet split: option.splits)
  have fr: "project yml' = project yml" "kernel_slug yml' = kernel_slug yml"
           "code_file yml' = code_file yml" "accelerator yml' = accelerator yml"
           "internet yml' = internet yml" "privacy yml' = privacy yml"
           "competitions yml' = competitions yml" "outputs yml' = outputs yml"
           "yml'\<lparr>datasets := datasets yml\<rparr> = yml" "datasets yml' = Some xs"
    by (simp_all add: yml'_def)
  from a l s fr show ?thesis by blast
qed

text \<open>Claim C6 at a configuration with every field set.\<close>

theorem attachDataset_preserves_fields_witness:
  "''alice/iris'' \<noteq> [] \<and>
   loadYml (Mapping \<lparr>project = Some ''p'', kernel_slug = Some ''bob/p'',
       code_file = Some ''notebook.ipynb'', accelerator = Some AccGpu, internet = Some True,
       privacy = Some Private, datasets = Some [''bob/x''], competitions = Some [''titanic''],
       outputs = Some \<lparr>download_to = Some (JStr ''out'')\<rparr>\<rparr>)
     = Inr \<lparr>project = Some ''p'', kernel_slug = Some ''bob/p'',
       code_file = Some ''notebook.ipynb'', accelerator = Some AccGpu, internet = Some True,
       privacy = Some Private, datasets = Some [''bob/x''], competitions = Some [''titanic''],
       outputs = Some \<lparr>download_to = Some (JStr ''out'')\<rparr>\<rparr> \<and>
   attachDataset (Mapping \<lparr>project = Some ''p'', kernel_slug = Some ''bob/p'',
       code_file = Some ''notebook.ipynb'', accelerator = Some AccGpu, internet = Some True,
       privacy = Some Private, datasets = Some [''bob/x''], competitions = Some [''titanic''],
       outputs = Some \<lparr>download_to = Some (JStr ''out'')\<rparr>\<rparr>) ''alice/iris''
     = Inr (Mapping \<lparr>project = Some ''p'', kernel_slug = Some ''bob/p'',
       code_file = Some ''notebook.ipynb'', accelerator = Some AccGpu, internet = Some True,
       privacy = Some Private, datasets = Some [''bob/x'', ''alice/iris''],
       competitions = Some [''titanic''],
       outputs = Some \<lparr>download_to = Some (JStr ''out'')\<rparr>\<rparr>)"
proof -
  let ?y = "\<lparr>project = Some ''p'', kernel_slug = Some ''bob/p'',
       code_file = Some ''notebook.ipynb'', accelerator = Some AccGpu, internet = Some True,
       privacy = Some Private, datasets = Some [''bob/x''], competitions = Some [''titanic''],
       outputs = Some \<lparr>download_to = Some (JStr ''out'')\<rparr>\<rparr>"
  have h1: "''alice/iris'' \<noteq> []" by simp
  have h2: "loadYml (Mapping ?y) = Inr ?y" by (simp add: loadYml_def)
  from attachDataset_preserves_fields[OF h1 h2]
  obtain f' yml' xs where r: "attachDataset (Mapping ?y) ''alice/iris'' = Inr f'"
    "loadYml f' = Inr yml'" "yml'\<lparr>datasets := datasets ?y\<rparr> = ?y" "datasets yml' = Some xs"
    by blast
  have e: "attachDataset (Mapping ?y) ''alice/iris''
            = Inr (Mapping (?y\<lparr>datasets := Some [''bob/x'', ''alice/iris'']\<rparr>))"
    by (simp add: attachDataset_def attachToFile_def loadYml_def arrayFromSet_def setAdd_def)
  with r h1 h2 show ?thesis by simp
qed

section \<open>Verification: polling for outputs\<close>

lemma sleepMs_pos: "1 \<le> sleepMs iv"
  by (simp add: sleepMs_def Let_def max_def)

lemma sleepMs_one: "sleepMs 1 = 1000"
  by (simp add: sleepMs_def)

lemma startOf_sum: "startOf dur iv k = int (\<Sum>j<k. dur j) + int k * sleepMs iv"
  by (induction k) (simp_all add: algebra_simps)

lemma startOf_Suc_le: "startOf dur iv k \<le> startOf dur iv (Suc k)"
  using sleepMs_pos[of iv] by simp

lemma startOf_mono: "j \<le> k \<Longrightarrow> startOf dur iv j \<le> startOf dur iv k"
proof (induction k)
  case 0
  then show ?case by simp
next
  case (Suc k)
  show ?case
  proof (cases "j = Suc k")
    case True
    then show ?thesis by simp
  next
    case False
    with Suc.prems have "j \<le> k" by simp
    from Suc.IH[OF this] startOf_Suc_le[of dur iv k] show ?thesis by linarith
  qed
qed

lemma pollLoop_complete_from:
  assumes "\<forall>j. i \<le> j \<and> j < k \<longrightarrow> \<not> observedNonEmpty (fetch j)"
    and "observedNonEmpty (fetch k)"
    and "i \<le> k"
    and "startOf dur iv k < tmo * 1000"
  shows "pollLoop fetch dur iv tmo i (startOf dur iv i) = Complete (Suc k)"
  using assms
proof (induction "k - i" arbitrary: i)
  case 0
  then have "i = k" by simp
  with 0 show ?case by (simp add: pollLoop.simps)
next
  case (Suc d)
  then have lt: "i < k" by simp
  then have "startOf dur iv i \<le> startOf dur iv k" by (simp add: startOf_mono)
  with Suc.prems(4) have e: "startOf dur iv i < tmo * 1000" by simp
  from Suc.prems(1) lt have ne: "\<not> observedNonEmpty (fetch i)" by simp
  have "pollLoop fetch dur iv tmo (Suc i) (startOf dur iv (Suc i)) = Complete (Suc k)"
  proof (rule Suc.hyps(1))
    show "d = k - Suc i" using Suc.hyps(2) by simp
    show "\<forall>j. Suc i \<le> j \<and> j < k \<longrightarrow> \<not> observedNonEmpty (fetch j)" using Suc.prems(1) by simp
    show "observedNonEmpty (fetch k)" by (rule Suc.prems(2))
    show "Suc i \<le> k" using lt by simp
    show "startOf dur iv k < tmo * 1000" by (rule Suc.prems(4))
  qed
  with e ne show ?case by (subst pollLoop.simps) simp
qed

lemma pollLoop_timeout_from:
  assumes "\<forall>j. i \<le> j \<and> startOf dur iv j < tmo * 1000 \<longrightarrow> \<not> observedNonEmpty (fetch j)"
  shows "\<exists>n. i \<le> n \<and> pollLoop fetch dur iv tmo i (startOf dur iv i) = TimedOut n \<and>
             tmo * 1000 \<le> startOf dur iv n \<and>
             (\<forall>j. i \<le> j \<and> j < n \<longrightarrow> startOf dur iv j < tmo * 1000)"
  using assms
proof (induction "nat (tmo * 1000 - startOf dur iv i)" arbitrary: i rule: less_induct)
  case less
  show ?case
  proof (cases "startOf dur iv i < tmo * 1000")
    case False
    then have "pollLoop fetch dur iv tmo i (startOf dur iv i) = TimedOut i"
      by (subst pollLoop.simps) simp
    with False show ?thesis by (intro exI[of _ i]) auto
  next
    case True
    with less.prems have ne: "\<not> observedNonEmpty (fetch i)" by simp
    have dec: "nat (tmo * 1000 - startOf dur iv (Suc i)) < nat (tmo * 1000 - startOf dur iv i)"
      using True sleepMs_pos[of iv] by simp
    have "\<forall>j. Suc i \<le> j \<and> startOf dur iv j < tmo * 1000 \<longrightarrow> \<not> observedNonEmpty (fetch j)"
      using less.prems by simp
    from less.hyps[OF dec this]
    obtain n where n: "Suc i \<le> n"
      "pollLoop fetch dur iv tmo (Suc i) (startOf dur iv (Suc i)) = TimedOut n"
      "tmo * 1000 \<le> startOf dur iv n"
      "\<forall>j. Suc i \<le> j \<and> j < n \<longrightarrow> startOf dur iv j < tmo * 1000"
      by blast
    have "pollLoop fetch dur iv tmo i (startOf dur iv i) = TimedOut n"
      using True ne n(2) by (subst pollLoop.simps) simp
    moreover have "\<forall>j. i \<le> j \<and> j < n \<longrightarrow> startOf dur iv j < tmo * 1000"
    proof (intro allI impI)
      fix j assume j: "i \<le> j \<and> j < n"
      show "startOf dur iv j < tmo * 1000"
      proof (cases "j = i")
        case True
        then show ?thesis using \<open>startOf dur iv i < tmo * 1000\<close> by simp
      next
        case False
        with j n(4) show ?thesis by simp
      qed
    qed
    ultimately show ?thesis using n(1,3) by (intro exI[of _ n]) auto
  qed
qed

lemma pollLoop_complete:
  assumes "\<forall>j<k. \<not> observedNonEmpty (fetch j)" and "observedNonEmpty (fetch k)"
    and "startOf dur iv k < tmo * 1000"
  shows "pollLoop fetch dur iv tmo 0 0 = Complete (Suc k)"
  using pollLoop_complete_from[of 0 k fetch dur iv tmo] assms by simp

lemma pollLoop_timeout:
  assumes "\<forall>j. startOf dur iv j < tmo * 1000 \<longrightarrow> \<not> observedNonEmpty (fetch j)"
  shows "\<exists>n. pollLoop fetch dur iv tmo 0 0 = TimedOut n \<and> tmo * 1000 \<le> startOf dur iv n \<and>
             (\<forall>j<n. startOf dur iv j < tmo * 1000)"
  using pollLoop_timeout_from[of 0 dur iv tmo fetch] assms by simp

lemma pollLoop_stub_complete:
  assumes "\<forall>j<N. fetch j = Items []" and "fetch N = Items (x # xs)"
    and "(\<Sum>j<N. dur j) < 2000"
  shows "pollLoop fetch dur 1 (int N + 2) 0 0 = Complete (N + 1)"
proof -
  define total where "total = (\<Sum>j<N. dur j)"
  have "startOf dur 1 N = int total + int N * 1000"
    unfolding total_def startOf_sum by (simp add: sleepMs_one del: of_nat_sum)
  moreover have "int total < 2000" using assms(3) unfolding total_def by linarith
  ultimately have "startOf dur 1 N < (int N + 2) * 1000" by simp
  moreover have "\<forall>j<N. \<not> observedNonEmpty (fetch j)" using assms(1) by simp
  moreover have "observedNonEmpty (fetch N)" using assms(2) by simp
  ultimately show ?thesis using pollLoop_complete[of N fetch dur 1 "int N + 2"] by simp
qed

lemma pollLoop_stub_timeout:
  assumes "\<forall>j. fetch j = Items []"
  shows "\<exists>n. 1 \<le> n \<and> n \<le> 2 \<and> pollLoop fetch dur 1 2 0 0 = TimedOut n"
proof -
  have "\<forall>j. startOf dur 1 j < 2 * 1000 \<longrightarrow> \<not> observedNonEmpty (fetch j)"
    using assms by simp
  from pollLoop_timeout[OF this]
  obtain n where n: "pollLoop fetch dur 1 2 0 0 = TimedOut n" "2 * 1000 \<le> startOf dur 1 n"
    "\<forall>j<n. startOf dur 1 j < 2 * 1000" by blast
  have "n \<noteq> 0" using n(2) by (cases n) simp_all
  moreover have "n \<le> 2"
  proof (rule ccontr)
    assume "\<not> n \<le> 2"
    then have "2 < n" by simp
    with n(3) have "startOf dur 1 2 < 2 * 1000" by blast
    then show False by (simp add: numeral_2_eq_2 sleepMs_one)
  qed
  ultimately show ?thesis using n(1) by (intro exI[of _ n]) simp
qed

lemma observedNonEmpty_asNotReady: "observedNonEmpty (asNotReady a) = observedNonEmpty a"
  by (cases a) simp_all

lemma pollLoop_asNotReady:
  "pollLoop (\<lambda>i. asNotReady (fetch i)) dur iv tmo i e = pollLoop fetch dur iv tmo i e"
proof (induction fetch dur iv tmo i e rule: pollLoop.induct)
  case (1 fetch dur iv tmo i e)
  show ?case
    by (subst pollLoop.simps, subst (2) pollLoop.simps)
       (simp add: observedNonEmpty_asNotReady "1.IH")
qed

text \<open>
  Claim C1, amended. Let the steps before the loop succeed: kaggle.yml loads, the name
  of the output directory can be joined to the root, and the directory can be created.
  Then \<open>pollAndDownload\<close> returns a result for every sequence of attempts, never an error,
  and a failed attempt counts exactly like one that found the directory empty. It reports
  \<open>Complete\<close> after \<open>k + 1\<close> attempts when attempt \<open>k\<close> is the first to read a non-empty
  directory and begins before the timeout has elapsed; it reports \<open>TimedOut\<close>, at the first
  test of the loop that finds the timeout reached, when no attempt that begins before the
  timeout reads a non-empty directory. With an interval of one second and a timeout of
  \<open>N + 2\<close> seconds, a fetch that leaves the directory empty \<open>N\<close> times and then fills it
  gives \<open>Complete\<close> after exactly \<open>N + 1\<close> attempts if the first \<open>N\<close> attempts themselves
  take less than two seconds in all; with a timeout of two seconds, a fetch that always
  leaves the directory empty gives \<open>TimedOut\<close>.
\<close>

theorem pollAndDownload_outcome:
  assumes "loadYml f = Inr yml" and "outputDirName yml = Some dest" and "canMkdir dest"
  shows "(\<exists>r. pollAndDownload f canMkdir fetch dur iv tmo = Inr r) \<and>
         pollAndDownload f canMkdir (\<lambda>i. asNotReady (fetch i)) dur iv tmo
           = pollAndDownload f canMkdir fetch dur iv tmo \<and>
         (\<forall>k. (\<forall>j<k. \<not> observedNonEmpty (fetch j)) \<and> observedNonEmpty (fetch k) \<and>
               startOf dur iv k < tmo * 1000 \<longrightarrow>
               pollAndDownload f canMkdir fetch dur iv tmo = Inr (Complete (Suc k))) \<and>
         ((\<forall>j. startOf dur iv j < tmo * 1000 \<longrightarrow> \<not> observedNonEmpty (fetch j)) \<longrightarrow>
            (\<exists>n. pollAndDownload f canMkdir fetch dur iv tmo = Inr (TimedOut n) \<and>
                  tmo * 1000 \<le> startOf dur iv n \<and>
                  (\<forall>j<n. startOf dur iv j < tmo * 1000))) \<and>
         (\<forall>N x xs. (\<forall>j<N. fetch j = Items []) \<and> fetch N = Items (x # xs) \<and>
               (\<Sum>j<N. dur j) < 2000 \<longrightarrow>
               pollAndDownload f canMkdir fetch dur 1 (int N + 2) = Inr (Complete (N + 1))) \<and>
         ((\<forall>j. fetch j = Items []) \<longrightarrow>
            (\<exists>n. 1 \<le> n \<and> n \<le> 2 \<and>
                 pollAndDownload f canMkdir fetch dur 1 2 = Inr (TimedOut n)))"
proof -
  have p: "\<And>fetch iv tmo. pollAndDownload f canMkdir fetch dur iv tmo
                            = Inr (pollLoop fetch dur iv tmo 0 0)"
    using assms by (simp add: pollAndDownload_def)
  have a: "\<exists>r. pollAndDownload f canMkdir fetch dur iv tmo = Inr r"
    by (simp add: p)
  have q: "pollAndDownload f canMkdir (\<lambda>i. asNotReady (fetch i)) dur iv tmo
           = pollAndDownload f canMkdir fetch dur iv tmo"
    by (simp add: p pollLoop_asNotReady)
  have b: "\<forall>k. (\<forall>j<k. \<not> observedNonEmpty (fetch j)) \<and> observedNonEmpty (fetch k) \<and>
               startOf dur iv k < tmo * 1000 \<longrightarrow>
               pollAndDownload f canMkdir fetch dur iv tmo = Inr (Complete (Suc k))"
    by (simp add: p pollLoop_complete)
  have c: "(\<forall>j. startOf dur iv j < tmo * 1000 \<longrightarrow> \<not> observedNonEmpty (fetch j)) \<longrightarrow>
            (\<exists>n. pollAndDownload f canMkdir fetch dur iv tmo = Inr (TimedOut n) \<and>
                  tmo * 1000 \<le> startOf dur iv n \<and>
                  (\<forall>j<n. startOf dur iv j < tmo * 1000))"
    unfolding p using pollLoop_timeout[of dur iv tmo fetch] by simp
  have d: "\<forall>N x xs. (\<forall>j<N. fetch j = Items []) \<and> fetch N = Items (x # xs) \<and>
               (\<Sum>j<N. dur j) < 2000 \<longrightarrow>
               pollAndDownload f canMkdir fetch dur 1 (int N + 2) = Inr (Complete (N + 1))"
    unfolding p using pollLoop_stub_complete[of _ fetch _ _ dur] by blast
  have e: "(\<forall>j. fetch j = Items []) \<longrightarrow>
            (\<exists>n. 1 \<le> n \<and> n \<le> 2 \<and>
                 pollAndDownload f canMkdir fetch dur 1 2 = Inr (TimedOut n))"
    unfolding p using pollLoop_stub_timeout[of fetch dur] by simp
  from a q b c d e show ?thesis by blast
qed

text \<open>The amended claim C1 at the stubs of the specification: three empty attempts and a
  timeout of five seconds, and an always empty directory with a timeout of two seconds.\<close>

theorem pollAndDownload_outcome_witness:
  "loadYml EmptyDoc = Inr emptyYml \<and>
   outputDirName emptyYml = Some ''.kaggle-outputs'' \<and> everyFolder ''.kaggle-outputs'' \<and>
   emptyThenFull 3 0 = Items [] \<and> emptyThenFull 3 1 = Items [] \<and>
   emptyThenFull 3 2 = Items [] \<and> emptyThenFull 3 3 = Items [''output.csv''] \<and>
   (\<Sum>j<3. instant j) < 2000 \<and>
   pollAndDownload EmptyDoc everyFolder (emptyThenFull 3) instant 1 5 = Inr (Complete 4) \<and>
   (\<forall>j. alwaysEmpty j = Items []) \<and>
   pollAndDownload EmptyDoc everyFolder alwaysEmpty instant 1 2 = Inr (TimedOut 2)"
proof -
  have h: "loadYml EmptyDoc = Inr emptyYml" by (simp add: loadYml_def)
  have o: "outputDirName emptyYml = Some ''.kaggle-outputs''"
    by (simp add: outputDirName_def emptyYml_def)
  have m: "everyFolder ''.kaggle-outputs''" by (simp add: everyFolder_def)
  have s1: "\<forall>j<3. emptyThenFull 3 j = Items []" by (simp add: emptyThenFull_def)
  have s2: "emptyThenFull 3 3 = Items [''output.csv'']" by (simp add: emptyThenFull_def)
  have s3: "(\<Sum>j<3. instant j) < 2000" by (simp add: instant_def)
  have s4: "\<forall>j. alwaysEmpty j = Items []" by (simp add: alwaysEmpty_def)
  note t1 = pollAndDownload_outcome
              [where f = EmptyDoc and yml = emptyYml and dest = "''.kaggle-outputs''"
                 and canMkdir = everyFolder and fetch = "emptyThenFull 3" and dur = instant
                 and iv = 1 and tmo = 5, OF h o m]
  from t1 s1 s2 s3
  have c: "pollAndDownload EmptyDoc everyFolder (emptyThenFull 3) instant 1 (int 3 + 2)
           = Inr (Complete (3 + 1))"
    by blast
  note t2 = pollAndDownload_outcome
              [where f = EmptyDoc and yml = emptyYml and dest = "''.kaggle-outputs''"
                 and canMkdir = everyFolder and fetch = alwaysEmpty and dur = instant
                 and iv = 1 and tmo = 2, OF h o m]
  from t2 s4 obtain n where n: "1 \<le> n" "n \<le> 2"
    "pollAndDownload EmptyDoc everyFolder alwaysEmpty instant 1 2 = Inr (TimedOut n)" by blast
  have "pollLoop alwaysEmpty instant 1 2 0 0 \<noteq> TimedOut 1"
    by (simp add: pollLoop.simps alwaysEmpty_def instant_def sleepMs_one)
  with n h o m have "n \<noteq> 1" by (auto simp: pollAndDownload_def)
  with n have d: "pollAndDownload EmptyDoc everyFolder alwaysEmpty instant 1 2 = Inr (TimedOut 2)"
    by (cases "n = 2") auto
  have s0: "emptyThenFull 3 0 = Items []" "emptyThenFull 3 1 = Items []"
    "emptyThenFull 3 2 = Items []" by (simp_all add: emptyThenFull_def)
  from h o m s0 s2 s3 s4 c d show ?thesis by simp
qed

text \<open>
  Claim C1 as stated fails. With one empty attempt before the directory fills, an
  interval of one second and a timeout of three seconds, attempts that take two seconds
  each leave no time for the second one: after the first attempt and the sleep the three
  seconds are over, and the loop reports \<open>TimedOut\<close> after one attempt instead of
  \<open>Complete\<close> after two.
\<close>

theorem pollAndDownload_slow_attempts:
  "emptyThenFull 1 0 = Items [] \<and> emptyThenFull 1 1 = Items [''output.csv''] \<and>
   pollAndDownload EmptyDoc everyFolder (emptyThenFull 1) twoSeconds 1 3 = Inr (TimedOut 1)"
  by (simp add: pollAndDownload_def loadYml_def outputDirName_def emptyYml_def everyFolder_def
        pollLoop.simps emptyThenFull_def twoSeconds_def sleepMs_one)

section \<open>Verification: the run URL\<close>

lemma stripPrefix_iff: "stripPrefix p s = Some r \<longleftrightarrow> s = p @ r"
  by (induction p s rule: stripPrefix.induct) auto

lemma stripPrefix_append: "stripPrefix p (p @ r) = Some r"
  by (simp add: stripPrefix_iff)

lemma matchHost_Some:
  assumes "matchHost scheme s = Some m"
  shows "\<exists>body post. body \<noteq> [] \<and> list_all isUrlChar body \<and>
           s = ''://www.kaggle.com/'' @ body @ post \<and> m = scheme @ ''://www.kaggle.com/'' @ body"
proof -
  from assms obtain t where t: "stripPrefix ''://www.kaggle.com/'' s = Some t"
    and b: "takeWhile isUrlChar t \<noteq> []"
    and m: "m = scheme @ ''://www.kaggle.com/'' @ takeWhile isUrlChar t"
    by (auto simp: matchHost_def Let_def split: option.splits if_splits)
  from t have "s = ''://www.kaggle.com/'' @ t" by (simp only: stripPrefix_iff)
  then have "s = ''://www.kaggle.com/'' @ takeWhile isUrlChar t @ dropWhile isUrlChar t"
    by simp
  moreover have "list_all isUrlChar (takeWhile isUrlChar t)"
    by (simp add: list_all_iff) (meson set_takeWhileD)
  ultimately show ?thesis using b m by blast
qed

lemma matchHost_append:
  assumes "body \<noteq> []" and "list_all isUrlChar body"
  shows "matchHost scheme (''://www.kaggle.com/'' @ body @ post)
           = Some (scheme @ ''://www.kaggle.com/'' @ body @ takeWhile isUrlChar post)"
proof -
  have "stripPrefix ''://www.kaggle.com/'' (''://www.kaggle.com/'' @ body @ post) = Some (body @ post)"
    by (rule stripPrefix_append)
  moreover have "takeWhile isUrlChar (body @ post) = body @ takeWhile isUrlChar post"
    using assms(2) by (simp add: list_all_iff takeWhile_append2)
  ultimately show ?thesis using assms(1) by (simp add: matchHost_def Let_def)
qed

lemma matchUrlAt_Some:
  assumes "matchUrlAt s = Some m"
  shows "isKaggleUrl m \<and> (\<exists>post. s = m @ post)"
proof -
  from assms obtain r where r: "stripPrefix ''http'' s = Some r"
    by (auto simp: matchUrlAt_def split: option.splits)
  then have s: "s = ''http'' @ r" by (simp only: stripPrefix_iff)
  from assms r consider
      (https) r' where "stripPrefix ''s'' r = Some r'" "matchHost ''https'' r' = Some m"
    | (http) "matchHost ''http'' r = Some m"
    by (auto simp: matchUrlAt_def split: option.splits)
  then show ?thesis
  proof cases
    case https
    from https(1) have r': "r = ''s'' @ r'" by (simp only: stripPrefix_iff)
    from matchHost_Some[OF https(2)] obtain body post where
      b: "body \<noteq> []" "list_all isUrlChar body" "r' = ''://www.kaggle.com/'' @ body @ post"
         "m = ''https'' @ ''://www.kaggle.com/'' @ body" by blast
    have "isKaggleUrl m" unfolding isKaggleUrl_def using b(1,2,4) by auto
    moreover have "s = m @ post" using s r' b(3,4) by simp
    ultimately show ?thesis by blast
  next
    case http
    from matchHost_Some[OF http] obtain body post where
      b: "body \<noteq> []" "list_all isUrlChar body" "r = ''://www.kaggle.com/'' @ body @ post"
         "m = ''http'' @ ''://www.kaggle.com/'' @ body" by blast
    have "isKaggleUrl m" unfolding isKaggleUrl_def using b(1,2,4) by auto
    moreover have "s = m @ post" using s b(3,4) by simp
    ultimately show ?thesis by blast
  qed
qed

lemma matchUrlAt_append:
  assumes "isKaggleUrl u"
  shows "matchUrlAt (u @ post) = Some (u @ takeWhile isUrlChar post)"
proof -
  from assms obtain body where b: "body \<noteq> []" "list_all isUrlChar body"
    and u: "u = ''http://www.kaggle.com/'' @ body \<or> u = ''https://www.kaggle.com/'' @ body"
    unfolding isKaggleUrl_def by blast
  from u show ?thesis
  proof
    assume u: "u = ''http://www.kaggle.com/'' @ body"
    have "matchHost ''http'' (''://www.kaggle.com/'' @ body @ post)
            = Some (''http'' @ ''://www.kaggle.com/'' @ body @ takeWhile isUrlChar post)"
      using b by (rule matchHost_append)
    then show ?thesis unfolding u by (simp add: matchUrlAt_def)
  next
    assume u: "u = ''https://www.kaggle.com/'' @ body"
    have "matchHost ''https'' (''://www.kaggle.com/'' @ body @ post)
            = Some (''https'' @ ''://www.kaggle.com/'' @ body @ takeWhile isUrlChar post)"
      using b by (rule matchHost_append)
    then show ?thesis unfolding u by (simp add: matchUrlAt_def)
  qed
qed

lemma firstUrl_Some:
  "firstUrl s = Some m \<Longrightarrow>
   \<exists>n. n \<le> length s \<and> matchUrlAt (drop n s) = Some m \<and> (\<forall>k<n. matchUrlAt (drop k s) = None)"
proof (induction s)
  case Nil
  then show ?case by simp
next
  case (Cons c cs)
  show ?case
  proof (cases "matchUrlAt (c # cs)")
    case (Some m')
    with Cons.prems have "m' = m" by simp
    with Some show ?thesis by (intro exI[of _ 0]) simp
  next
    case None
    with Cons.prems have "firstUrl cs = Some m" by simp
    from Cons.IH[OF this] obtain n where n: "n \<le> length cs" "matchUrlAt (drop n cs) = Some m"
      "\<forall>k<n. matchUrlAt (drop k cs) = None" by blast
    have "\<forall>k<Suc n. matchUrlAt (drop k (c # cs)) = None"
    proof (intro allI impI)
      fix k assume "k < Suc n"
      then show "matchUrlAt (drop k (c # cs)) = None"
        using None n(3) by (cases k) simp_all
    qed
    with n(1,2) show ?thesis by (intro exI[of _ "Suc n"]) simp
  qed
qed

lemma firstUrl_None:
  "firstUrl s = None \<Longrightarrow> k \<le> length s \<Longrightarrow> matchUrlAt (drop k s) = None"
proof (induction s arbitrary: k)
  case Nil
  then show ?case by simp
next
  case (Cons c cs)
  from Cons.prems(1) have a: "matchUrlAt (c # cs) = None" "firstUrl cs = None"
    by (simp_all split: option.splits)
  show ?case
  proof (cases k)
    case 0
    with a show ?thesis by simp
  next
    case (Suc k')
    with Cons.prems(2) have "k' \<le> length cs" by simp
    from Cons.IH[OF a(2) this] Suc show ?thesis by simp
  qed
qed

lemma occurrence_matches:
  assumes "s = pre @ u @ post" and "isKaggleUrl u"
  shows "matchUrlAt (drop (length pre) s) = Some (u @ takeWhile isUrlChar post)"
  using assms matchUrlAt_append[of u post] by simp

lemma firstUrl_is_first:
  assumes "firstUrl s = Some m"
  shows "isFirstUrlOf s m"
proof -
  from firstUrl_Some[OF assms] obtain n where n: "n \<le> length s"
    "matchUrlAt (drop n s) = Some m" "\<forall>k<n. matchUrlAt (drop k s) = None" by blast
  from matchUrlAt_Some[OF n(2)] obtain post where k: "isKaggleUrl m" "drop n s = m @ post"
    by blast
  have s: "s = take n s @ m @ post" using k(2) by (metis append_take_drop_id)
  have len: "length (take n s) = n" using n(1) by simp
  have "\<forall>pre' u' post'. s = pre' @ u' @ post' \<and> isKaggleUrl u' \<longrightarrow>
          length (take n s) < length pre' \<or>
          (length (take n s) = length pre' \<and> length u' \<le> length m)"
  proof (intro allI impI)
    fix pre' u' post'
    assume o: "s = pre' @ u' @ post' \<and> isKaggleUrl u'"
    then have mm: "matchUrlAt (drop (length pre') s) = Some (u' @ takeWhile isUrlChar post')"
      using occurrence_matches by blast
    show "length (take n s) < length pre' \<or>
          (length (take n s) = length pre' \<and> length u' \<le> length m)"
    proof (cases "length pre' < n")
      case True
      with n(3) mm show ?thesis by simp
    next
      case False
      show ?thesis
      proof (cases "length pre' = n")
        case True
        with mm n(2) have "m = u' @ takeWhile isUrlChar post'" by simp
        then show ?thesis using True len by simp
      next
        case False
        with \<open>\<not> length pre' < n\<close> len show ?thesis by simp
      qed
    qed
  qed
  with s k(1) show ?thesis unfolding isFirstUrlOf_def by blast
qed

lemma firstUrl_None_iff: "firstUrl s = None \<longleftrightarrow> \<not> hasUrl s"
proof
  assume a: "firstUrl s = None"
  show "\<not> hasUrl s"
  proof
    assume "hasUrl s"
    then obtain pre u post where o: "s = pre @ u @ post" "isKaggleUrl u"
      unfolding hasUrl_def by blast
    then have "matchUrlAt (drop (length pre) s) = Some (u @ takeWhile isUrlChar post)"
      by (rule occurrence_matches)
    moreover have "matchUrlAt (drop (length pre) s) = None"
      using a o(1) by (intro firstUrl_None) simp_all
    ultimately show False by simp
  qed
next
  assume a: "\<not> hasUrl s"
  show "firstUrl s = None"
  proof (cases "firstUrl s")
    case None
    then show ?thesis .
  next
    case (Some m)
    from firstUrl_is_first[OF this] have "hasUrl s"
      unfolding isFirstUrlOf_def hasUrl_def by blast
    with a show ?thesis by simp
  qed
qed

lemma isFirstUrlOf_unique:
  assumes "isFirstUrlOf s u" and "isFirstUrlOf s v"
  shows "u = v"
proof -
  from assms(1) obtain p1 q1 where a: "s = p1 @ u @ q1" "isKaggleUrl u"
    "\<forall>pre' u' post'. s = pre' @ u' @ post' \<and> isKaggleUrl u' \<longrightarrow>
       length p1 < length pre' \<or> (length p1 = length pre' \<and> length u' \<le> length u)"
    unfolding isFirstUrlOf_def by blast
  from assms(2) obtain p2 q2 where b: "s = p2 @ v @ q2" "isKaggleUrl v"
    "\<forall>pre' u' post'. s = pre' @ u' @ post' \<and> isKaggleUrl u' \<longrightarrow>
       length p2 < length pre' \<or> (length p2 = length pre' \<and> length u' \<le> length v)"
    unfolding isFirstUrlOf_def by blast
  from a(3) b(1,2) have 1: "length p1 < length p2 \<or> (length p1 = length p2 \<and> length v \<le> length u)"
    by blast
  from b(3) a(1,2) have 2: "length p2 < length p1 \<or> (length p2 = length p1 \<and> length u \<le> length v)"
    by blast
  from 1 2 have l: "length p1 = length p2" "length u = length v" by auto
  from a(1) b(1) have "p1 @ u @ q1 = p2 @ v @ q2" by simp
  with l(1) have "u @ q1 = v @ q2" by simp
  with l(2) show "u = v" by simp
qed

lemma firstUrl_Some_iff: "firstUrl s = Some u \<longleftrightarrow> isFirstUrlOf s u"
proof
  assume "firstUrl s = Some u"
  then show "isFirstUrlOf s u" by (rule firstUrl_is_first)
next
  assume a: "isFirstUrlOf s u"
  then have "hasUrl s" unfolding isFirstUrlOf_def hasUrl_def by blast
  then have "firstUrl s \<noteq> None" by (simp add: firstUrl_None_iff)
  then obtain m where m: "firstUrl s = Some m" by auto
  from firstUrl_is_first[OF m] a have "m = u" by (rule isFirstUrlOf_unique)
  with m show "firstUrl s = Some u" by simp
qed

lemma isKaggleUrl_nonempty: "isKaggleUrl u \<Longrightarrow> u \<noteq> []"
  unfolding isKaggleUrl_def by auto

text \<open>
  Claim C3, amended. After a successful push the URL that is extracted is the first match
  of the pattern in the standard output alone: \<open>firstUrl\<close> finds exactly the leftmost
  longest match, and finds nothing exactly when the text has no match. One line
  \<open>ts | url\<close> is appended to the run log when there is a match, none when there is not,
  and without a match the step still succeeds. A failed push leaves the run log as it is.
\<close>

theorem pushAndLog_first_stdout_url:
  "(\<forall>u. firstUrl (stdout r) = Some u \<longleftrightarrow> isFirstUrlOf (stdout r) u) \<and>
   (firstUrl (stdout r) = None \<longleftrightarrow> \<not> hasUrl (stdout r)) \<and>
   pushAndLog ts runLog (Inr r) =
     (case firstUrl (stdout r) of
        None \<Rightarrow> (Inr None, runLog)
      | Some u \<Rightarrow> (Inr (Some u), runLog @ ts @ '' | '' @ u @ [LF])) \<and>
   pushAndLog ts runLog (Inl e) = (Inl e, runLog)"
proof -
  have "\<And>u. firstUrl (stdout r) = Some u \<Longrightarrow> u \<noteq> []"
    using firstUrl_is_first isKaggleUrl_nonempty unfolding isFirstUrlOf_def by blast
  then have "pushAndLog ts runLog (Inr r) =
     (case firstUrl (stdout r) of
        None \<Rightarrow> (Inr None, runLog)
      | Some u \<Rightarrow> (Inr (Some u), runLog @ ts @ '' | '' @ u @ [LF]))"
    by (auto simp: pushAndLog_def logRun_def split: option.splits)
  moreover have "pushAndLog ts runLog (Inl e) = (Inl e, runLog)"
    by (simp add: pushAndLog_def)
  ultimately show ?thesis
    using firstUrl_Some_iff[of "stdout r"] firstUrl_None_iff[of "stdout r"] by blast
qed

text \<open>The amended claim C3 at the output of the specification's scenario, on the
  standard output.\<close>

theorem pushAndLog_first_stdout_url_witness:
  "isFirstUrlOf ''Your job can be viewed at https://www.kaggle.com/code/bob/my-run here''
     ''https://www.kaggle.com/code/bob/my-run'' \<and>
   pushAndLog ''2024-01-01T00:00:00.000Z'' []
     (Inr \<lparr>stdout = ''Your job can be viewed at https://www.kaggle.com/code/bob/my-run here'',
           stderr = []\<rparr>)
   = (Inr (Some ''https://www.kaggle.com/code/bob/my-run''),
      ''2024-01-01T00:00:00.000Z | https://www.kaggle.com/code/bob/my-run\<newline>'')"
proof -
  let ?r = "\<lparr>stdout = ''Your job can be viewed at https://www.kaggle.com/code/bob/my-run here'',
           stderr = []\<rparr>"
  have f: "firstUrl (stdout ?r) = Some ''https://www.kaggle.com/code/bob/my-run''"
    by code_simp
  note t = pushAndLog_first_stdout_url[of ?r "''2024-01-01T00:00:00.000Z''" "[]"]
  from t f have "isFirstUrlOf (stdout ?r) ''https://www.kaggle.com/code/bob/my-run''"
    by blast
  moreover have "pushAndLog ''2024-01-01T00:00:00.000Z'' [] (Inr ?r)
     = (Inr (Some ''https://www.kaggle.com/code/bob/my-run''),
        [] @ ''2024-01-01T00:00:00.000Z'' @ '' | '' @ ''https://www.kaggle.com/code/bob/my-run'' @ [LF])"
  proof -
    from t have eq: "pushAndLog ''2024-01-01T00:00:00.000Z'' [] (Inr ?r) =
       (case firstUrl (stdout ?r) of
          None \<Rightarrow> (Inr None, [])
        | Some u \<Rightarrow> (Inr (Some u), [] @ ''2024-01-01T00:00:00.000Z'' @ '' | '' @ u @ [LF]))"
      by blast
    show ?thesis unfolding eq f by simp
  qed
  ultimately show ?thesis by simp
qed

text \<open>
  Claim C3 as stated fails. When the URL is printed on the standard error only, the
  combined output has a match, but the code searches the standard output alone: nothing
  is extracted and no line is appended.
\<close>

theorem pushAndLog_ignores_stderr:
  "firstUrl (stdout \<lparr>stdout = [],
                stderr = ''Your job can be viewed at https://www.kaggle.com/code/bob/my-run here''\<rparr>
             @ stderr \<lparr>stdout = [],
                stderr = ''Your job can be viewed at https://www.kaggle.com/code/bob/my-run here''\<rparr>)
     = Some ''https://www.kaggle.com/code/bob/my-run'' \<and>
   pushAndLog ''2024-01-01T00:00:00.000Z'' []
     (Inr \<lparr>stdout = [],
           stderr = ''Your job can be viewed at https://www.kaggle.com/code/bob/my-run here''\<rparr>)
   = (Inr None, [])"
  by code_simp

section \<open>Verification: shell arguments\<close>



lemma posix_quoted_char:
  "c \<noteq> SQ \<Longrightarrow> posixWords InQuotes cur (c # post) = posixWords InQuotes (cur @ [c]) post"
  by simp






















section \<open>Verification: the CLI invocation\<close>





section \<open>Verification: the run history\<close>








lemma sepAt_not_space: "\<not> isSpace c \<Longrightarrow> sepAt (c # cs) = None"
  by (simp add: sepAt_def)

lemma splitBar_no_space: "\<forall>c \<in> set s. \<not> isSpace c \<Longrightarrow> splitBar cur s = [cur @ s]"
  by (induction s arbitrary: cur) (simp_all add: sepAt_not_space)

text \<open>A line as \<open>logRun\<close> writes it, with a time stamp and a URL free of white space, is
  read back as that time stamp and that URL.\<close>

lemma parseLogLine_logRun:
  assumes "\<forall>c \<in> set ts. \<not> isSpace c" and "\<forall>c \<in> set u. \<not> isSpace c"
  shows "parseLogLine (ts @ '' | '' @ u)
         = \<lparr>label = ts, url = Some u, status = None, isLatest = False\<rparr>"
proof -
  have sep: "sepAt ('' | '' @ u) = Some u"
  proof -
    have "takeWhile isSpace u = []" using assms(2) by (cases u) simp_all
    then have "dropWhile isSpace u = u" by (metis takeWhile_dropWhile_id append_Nil)
    then show ?thesis by (simp add: sepAt_def isSpace_def)
  qed
  have "\<And>cur. splitBar cur (ts @ '' | '' @ u) = [cur @ ts, u]"
    using assms(1)
  proof (induction ts)
    case Nil
    have "splitBar cur ('' | '' @ u) = cur # splitBar [] u"
      using sep by simp
    then show ?case using splitBar_no_space[OF assms(2), of "[]"] by simp
  next
    case (Cons a ts)
    then have "\<not> isSpace a" by simp
    then have "splitBar cur ((a # ts) @ '' | '' @ u) = splitBar (cur @ [a]) (ts @ '' | '' @ u)"
      by (simp add: sepAt_not_space)
    then show ?case using Cons by simp
  qed
  then show ?thesis by (simp add: parseLogLine_def)
qed




end
